theory Spec2Isabelle
  imports Main "HOL-Library.Sublist" "HOL-Library.Multiset"
begin

section \<open>Articles\<close>

text \<open>
  The scrapers pass articles around as dictionaries with a fixed set of keys
  (\<^verbatim>\<open>ft_scraper.py\<close> lines 219-227, \<^verbatim>\<open>extract.py\<close> lines 142-149).
  The key \<^verbatim>\<open>scraped_at\<close> exists only in \<^verbatim>\<open>ft_scraper.py\<close>.
  A Python \<^verbatim>\<open>str\<close> is modelled as a \<^typ>\<open>string\<close>, one \<^typ>\<open>char\<close> per
  code point; the texts the model is run on are ASCII.
\<close>

record article =
  source :: string
  title :: string
  url :: string
  summary :: string
  date :: string
  category :: string
  scraped_at :: "string option"

section \<open>Logging\<close>

text \<open>
  The messages written by the stages after extraction, with the level of the
  \<^verbatim>\<open>logger\<close> call that writes them.
\<close>

datatype log_level = INFO | WARNING | ERROR

datatype log_message =
    Only_found nat int   \<comment> \<open>"Only found X articles, less than minimum Y"\<close>
  | Limited_to int       \<comment> \<open>"Limited to Y articles"\<close>

type_synonym log = "(log_level \<times> log_message) list"

definition warnings :: "log \<Rightarrow> log_message list" where
  "warnings l = map snd (filter (\<lambda>e. fst e = WARNING) l)"

section \<open>Removing duplicates\<close>

text \<open>
  \<^verbatim>\<open>ft_scraper.py\<close> lines 299-305 and \<^verbatim>\<open>extract.py\<close> lines 383-389 (the same text):
  \<^verbatim>\<open>
  seen_urls = set()
  unique_articles = []
  for article in all_articles:
      if article['url'] not in seen_urls:
          seen_urls.add(article['url'])
          unique_articles.append(article)
  \<close>
\<close>

fun remove_duplicates_loop :: "article list \<Rightarrow> string set \<Rightarrow> article list \<Rightarrow> article list" where
  "remove_duplicates_loop [] seen_urls unique_articles = unique_articles"
| "remove_duplicates_loop (a # rest) seen_urls unique_articles =
     (if url a \<notin> seen_urls
      then remove_duplicates_loop rest (insert (url a) seen_urls) (unique_articles @ [a])
      else remove_duplicates_loop rest seen_urls unique_articles)"

definition remove_duplicates :: "article list \<Rightarrow> article list" where
  "remove_duplicates all_articles = remove_duplicates_loop all_articles {} []"

section \<open>Relevance filter\<close>

text \<open>
  \<^verbatim>\<open>str.lower\<close> on ASCII text: the letters A-Z go to a-z, every other character stays.
\<close>

definition upper_to_lower :: "(char \<times> char) list" where
  "upper_to_lower = zip ''ABCDEFGHIJKLMNOPQRSTUVWXYZ'' ''abcdefghijklmnopqrstuvwxyz''"

definition lower_char :: "char \<Rightarrow> char" where
  "lower_char c = (case map_of upper_to_lower c of Some l \<Rightarrow> l | None \<Rightarrow> c)"

definition lower :: "string \<Rightarrow> string" where
  "lower s = map lower_char s"

text \<open>\<^verbatim>\<open>s.startswith(p)\<close>\<close>

fun startswith :: "string \<Rightarrow> string \<Rightarrow> bool" where
  "startswith s [] = True"
| "startswith [] (p # ps) = False"
| "startswith (c # cs) (p # ps) = (c = p \<and> startswith cs ps)"

text \<open>\<^verbatim>\<open>kw in s\<close> on strings: \<open>kw\<close> occurs in \<open>s\<close> as a contiguous block.\<close>

fun contains :: "string \<Rightarrow> string \<Rightarrow> bool" where
  "contains kw [] = (kw = [])"
| "contains kw (c # cs) = (startswith (c # cs) kw \<or> contains kw cs)"

text \<open>\<^verbatim>\<open>config.py\<close> lines 59-90.\<close>

definition RELEVANT_KEYWORDS :: "string list" where
  "RELEVANT_KEYWORDS = [
    ''technology'', ''tech'', ''ai'', ''artificial intelligence'', ''machine learning'',
    ''deep learning'', ''neural network'', ''algorithm'', ''automation'', ''digital'',
    ''software'', ''hardware'', ''semiconductor'', ''chip'', ''processor'', ''cloud'',
    ''cloud computing'', ''saas'', ''platform'', ''api'', ''cybersecurity'', ''security'',
    ''privacy'', ''data protection'', ''blockchain'', ''cryptocurrency'', ''bitcoin'',
    ''ethereum'', ''defi'', ''fintech'', ''financial technology'', ''digital banking'',
    ''mobile payment'', ''startup'', ''venture capital'', ''vc'', ''investment'',
    ''funding'', ''ipo'', ''merger'', ''acquisition'', ''m&a'', ''deal'', ''partnership'',
    ''market'', ''trading'', ''stock'', ''equity'', ''bond'', ''derivative'', ''risk'',
    ''compliance'', ''regulation'', ''regulatory'', ''compliance'', ''banking'',
    ''finance'', ''financial'', ''bank'', ''lending'', ''credit'', ''quantum computing'',
    ''quantum'', ''crypto'', ''web3'', ''metaverse'', ''vr'', ''virtual reality'', ''ar'',
    ''augmented reality'', ''iot'', ''internet of things'', ''5g'', ''6g'', ''telecom'',
    ''telecommunications'', ''biotech'', ''biotechnology'', ''healthtech'', ''medtech'',
    ''clean energy'', ''renewable'', ''solar'', ''wind'', ''battery'',
    ''electric vehicle'', ''ev'', ''autonomous'', ''self-driving'', ''revenue'',
    ''profit'', ''earnings'', ''quarterly'', ''annual'', ''growth'', ''expansion'',
    ''global'', ''international'', ''emerging market'', ''innovation'', ''research'',
    ''development'', ''r&d'', ''patent'', ''competition'', ''competitive'',
    ''market share'', ''customer'', ''user'', ''consumer'', ''enterprise'', ''b2b'',
    ''b2c'']"

text \<open>\<^verbatim>\<open>extract.py\<close> lines 411-418.\<close>

definition relevant_keywords :: "string list" where
  "relevant_keywords = [
    ''technology'', ''tech'', ''ai'', ''artificial intelligence'', ''machine learning'',
    ''fintech'', ''financial technology'', ''blockchain'', ''cryptocurrency'',
    ''cybersecurity'', ''digital'', ''software'', ''hardware'', ''semiconductor'',
    ''cloud'', ''data'', ''analytics'', ''automation'', ''innovation'', ''startup'',
    ''venture capital'', ''investment'', ''market'', ''trading'', ''risk'',
    ''compliance'', ''regulation'', ''banking'', ''finance'']"

text \<open>
  The loop of both \<^verbatim>\<open>filter_articles\<close> methods (\<^verbatim>\<open>ft_scraper.py\<close> lines 328-341,
  \<^verbatim>\<open>extract.py\<close> lines 420-433); they differ in the keyword list and in the prefix
  that \<^verbatim>\<open>has_valid_url\<close> asks for.
  \<^verbatim>\<open>
  for article in articles:
      title_lower = article['title'].lower()
      summary_lower = article['summary'].lower()
      is_relevant = any(keyword in title_lower or keyword in summary_lower
                        for keyword in RELEVANT_KEYWORDS)
      has_minimum_length = len(article['title']) >= 10
      has_valid_url = article['url'].startswith('https://www.ft.com/')
      if is_relevant and has_minimum_length and has_valid_url:
          filtered.append(article)
  \<close>
\<close>

fun filter_articles_loop :: "string list \<Rightarrow> string \<Rightarrow> article list \<Rightarrow> article list \<Rightarrow> article list" where
  "filter_articles_loop keywords valid_prefix [] filtered = filtered"
| "filter_articles_loop keywords valid_prefix (a # rest) filtered =
     (let title_lower = lower (title a);
          summary_lower = lower (summary a);
          is_relevant = list_ex (\<lambda>keyword. contains keyword title_lower \<or> contains keyword summary_lower) keywords;
          has_minimum_length = (length (title a) \<ge> 10);
          has_valid_url = startswith (url a) valid_prefix
      in if is_relevant \<and> has_minimum_length \<and> has_valid_url
         then filter_articles_loop keywords valid_prefix rest (filtered @ [a])
         else filter_articles_loop keywords valid_prefix rest filtered)"

text \<open>\<^verbatim>\<open>FinancialTimesScraper.filter_articles\<close>\<close>

definition ft_filter_articles :: "article list \<Rightarrow> article list" where
  "ft_filter_articles articles =
     filter_articles_loop RELEVANT_KEYWORDS ''https://www.ft.com/'' articles []"

text \<open>\<^verbatim>\<open>FinancialNewsScraper.filter_articles\<close>\<close>

definition news_filter_articles :: "article list \<Rightarrow> article list" where
  "news_filter_articles articles =
     filter_articles_loop relevant_keywords ''http'' articles []"

text \<open>
  The relevance rule in the words of the specification, to compare the loop with:
  a record is retained iff (a) at least one keyword matches the title or the summary as a
  case-insensitive substring, (b) the title has at least \<open>minTitleLength\<close> characters and
  (c) the url starts with at least one of the required prefixes.
\<close>

definition case_insensitive_substring :: "string \<Rightarrow> string \<Rightarrow> bool" where
  "case_insensitive_substring kw s = sublist (lower kw) (lower s)"

definition spec_retains :: "string set \<Rightarrow> nat \<Rightarrow> string set \<Rightarrow> article \<Rightarrow> bool" where
  "spec_retains keywords minTitleLength requiredUrlPrefixes r =
     ((\<exists>kw \<in> keywords. case_insensitive_substring kw (title r) \<or> case_insensitive_substring kw (summary r))
      \<and> length (title r) \<ge> minTitleLength
      \<and> (\<exists>p \<in> requiredUrlPrefixes. prefix p (url r)))"

section \<open>Bounding the number of articles\<close>

text \<open>The slice \<^verbatim>\<open>xs[:k]\<close>: a negative \<open>k\<close> counts from the end.\<close>

definition slice_to :: "'a list \<Rightarrow> int \<Rightarrow> 'a list" where
  "slice_to xs k = (if 0 \<le> k then take (nat k) xs else take (length xs - nat (- k)) xs)"

text \<open>
  \<^verbatim>\<open>ft_scraper.py\<close> lines 312-319 and \<^verbatim>\<open>extract.py\<close> lines 394-401 (the same text):
  \<^verbatim>\<open>
  if len(filtered_articles) < self.min_articles:
      logger.warning(f"Only found {len(filtered_articles)} articles, less than minimum ...")
  if len(filtered_articles) > self.max_articles:
      filtered_articles = filtered_articles[:self.max_articles]
      logger.info(f"Limited to {self.max_articles} articles")
  \<close>
  The result is the list and the log lines written.
\<close>

definition bound_articles :: "article list \<Rightarrow> int \<Rightarrow> int \<Rightarrow> article list \<times> log" where
  "bound_articles filtered_articles min_articles max_articles =
     (let log1 = (if int (length filtered_articles) < min_articles
                  then [(WARNING, Only_found (length filtered_articles) min_articles)]
                  else [])
      in if int (length filtered_articles) > max_articles
         then (slice_to filtered_articles max_articles, log1 @ [(INFO, Limited_to max_articles)])
         else (filtered_articles, log1))"

section \<open>Fetching a page with retries\<close>

text \<open>
  The exceptions an attempt can raise, by the handler of \<^verbatim>\<open>get_page_content\<close> that
  catches them: \<^verbatim>\<open>requests.exceptions.RequestException\<close> (line 135) and any other
  \<^verbatim>\<open>Exception\<close> (line 143). A value \<open>Inl e\<close> is "raises \<open>e\<close>".
\<close>

datatype exc = RequestException | OtherException

text \<open>
  What one attempt meets: the value of \<^verbatim>\<open>get_page_with_selenium(url)\<close> (the page source,
  or \<open>None\<close> without a driver or after a Selenium error, lines 96-114), and the outcome of
  lines 126-133 (\<^verbatim>\<open>update_session_headers\<close>, \<^verbatim>\<open>session.get\<close> with its timeout,
  \<^verbatim>\<open>raise_for_status\<close>, \<^verbatim>\<open>response.text\<close>).
\<close>

record attempt_env =
  selenium_page :: "string option"
  http_response :: "exc + string"

text \<open>Counters of what the retry loop did: bodies of the \<^verbatim>\<open>try\<close> run, and sleeps.\<close>

record fetch_state =
  op_calls :: nat
  sleep_calls :: nat

text \<open>The body of the \<^verbatim>\<open>try\<close>, lines 120-133.\<close>

definition try_body :: "attempt_env \<Rightarrow> bool \<Rightarrow> exc + string" where
  "try_body env use_selenium =
     (if use_selenium \<and> (case selenium_page env of Some content \<Rightarrow> content \<noteq> [] | None \<Rightarrow> False)
      then Inr (the (selenium_page env))
      else http_response env)"

text \<open>
  \<^verbatim>\<open>get_page_content\<close>, lines 116-147: \<^verbatim>\<open>for attempt in range(max_retries)\<close>, entered at
  \<open>attempt\<close>. The result is \<open>Inr\<close> of the returned value (\<open>None\<close> or the content), or
  \<open>Inl\<close> of an exception that leaves the function.
\<close>

function get_page_content_loop ::
  "(nat \<Rightarrow> attempt_env) \<Rightarrow> bool \<Rightarrow> int \<Rightarrow> nat \<Rightarrow> fetch_state \<Rightarrow> (exc + string option) \<times> fetch_state" where
  "get_page_content_loop env use_selenium max_retries attempt st =
     (if int attempt < max_retries then
        (let st1 = st\<lparr>op_calls := op_calls st + 1\<rparr> in
         case try_body (env attempt) use_selenium of
           Inr content \<Rightarrow> (Inr (Some content), st1)
         | Inl RequestException \<Rightarrow>
             if int attempt < max_retries - 1
             then get_page_content_loop env use_selenium max_retries (attempt + 1)
                    (st1\<lparr>sleep_calls := sleep_calls st1 + 1\<rparr>)
             else (Inr None, st1)
         | Inl OtherException \<Rightarrow> (Inr None, st1))
      else (Inr None, st))"
  by pat_completeness auto
termination
  by (relation "measure (\<lambda>(env, use_selenium, max_retries, attempt, st). nat (max_retries - int attempt))") auto

declare get_page_content_loop.simps [simp del]

definition get_page_content ::
  "(nat \<Rightarrow> attempt_env) \<Rightarrow> bool \<Rightarrow> int \<Rightarrow> (exc + string option) \<times> fetch_state" where
  "get_page_content env use_selenium max_retries =
     get_page_content_loop env use_selenium max_retries 0 \<lparr>op_calls = 0, sleep_calls = 0\<rparr>"

section \<open>Scraping the sources\<close>

text \<open>
  An entry of \<^verbatim>\<open>SOURCES\<close> or \<^verbatim>\<open>ADDITIONAL_SOURCES\<close> (\<^verbatim>\<open>config.py\<close>); \<open>cfg_url\<close> is
  \<open>None\<close> when the dictionary has no key \<^verbatim>\<open>'url'\<close>.
\<close>

record source_config =
  cfg_url :: "string option"
  cfg_name :: string
  cfg_category :: string

text \<open>
  What lies outside the repository: \<open>page\<close> is what the attempts on a url meet, and
  \<open>parse\<close> is the HTML layer of \<^verbatim>\<open>extract_ft_articles\<close> (lines 156-235: BeautifulSoup and
  the selector loop) applied to the content, the url, the source name and the category.
  The constructor \<^verbatim>\<open>BeautifulSoup(content, 'html.parser')\<close> and \<^verbatim>\<open>soup.select\<close> stand
  outside the inner \<^verbatim>\<open>try\<close>, so \<open>parse\<close> may raise.
\<close>

record world =
  page :: "string \<Rightarrow> nat \<Rightarrow> attempt_env"
  parse :: "string \<Rightarrow> string \<Rightarrow> string \<Rightarrow> string \<Rightarrow> exc + article list"

text \<open>\<^verbatim>\<open>extract_ft_articles\<close>, lines 149-235.\<close>

definition extract_ft_articles :: "world \<Rightarrow> string \<Rightarrow> string \<Rightarrow> string \<Rightarrow> exc + article list" where
  "extract_ft_articles w u source_name cat =
     (case fst (get_page_content (page w u) True 3) of
        Inl e \<Rightarrow> Inl e
      | Inr None \<Rightarrow> Inr []
      | Inr (Some content) \<Rightarrow> if content = [] then Inr [] else parse w content u source_name cat)"

text \<open>\<^verbatim>\<open>scrape_source_parallel\<close>, lines 237-253: any exception becomes the empty list.\<close>

definition scrape_source_parallel :: "world \<Rightarrow> source_config \<Rightarrow> exc + article list" where
  "scrape_source_parallel w source_config =
     (case (case cfg_url source_config of
              Some u \<Rightarrow> extract_ft_articles w u (cfg_name source_config) (cfg_category source_config)
            | None \<Rightarrow> Inr []) of
        Inr articles \<Rightarrow> Inr articles
      | Inl e \<Rightarrow> Inr [])"

text \<open>
  The loop over \<^verbatim>\<open>as_completed\<close>, lines 283-296, over the submitted sources in the order
  in which their tasks complete. Each task's outcome is taken from the world alone.
\<close>

fun collect_completed :: "world \<Rightarrow> source_config list \<Rightarrow> article list \<Rightarrow> article list" where
  "collect_completed w [] all_articles = all_articles"
| "collect_completed w (source_config # rest) all_articles =
     (case scrape_source_parallel w source_config of
        Inr articles \<Rightarrow> collect_completed w rest (all_articles @ articles)
      | Inl e \<Rightarrow> collect_completed w rest all_articles)"

text \<open>
  \<^verbatim>\<open>FinancialTimesScraper.scrape_all_sources\<close>, lines 257-297: the main source
  (\<open>None\<close> when \<^verbatim>\<open>SOURCES\<close> has no entry \<^verbatim>\<open>'ft_technology'\<close>), then the additional
  sources; \<open>completed\<close> is \<^verbatim>\<open>ADDITIONAL_SOURCES\<close> in completion order.
\<close>

definition ft_all_articles :: "world \<Rightarrow> source_config option \<Rightarrow> source_config list \<Rightarrow> exc + article list" where
  "ft_all_articles w main_source completed =
     (case (case main_source of
              None \<Rightarrow> Inr []
            | Some m \<Rightarrow>
                (case cfg_url m of
                   None \<Rightarrow> Inl OtherException
                 | Some u \<Rightarrow> extract_ft_articles w u (cfg_name m) (cfg_category m))) of
        Inl e \<Rightarrow> Inl e
      | Inr articles \<Rightarrow> Inr (collect_completed w completed ([] @ articles)))"

text \<open>Lines 257-305: the unique articles.\<close>

definition ft_unique_articles :: "world \<Rightarrow> source_config option \<Rightarrow> source_config list \<Rightarrow> exc + article list" where
  "ft_unique_articles w main_source completed =
     (case ft_all_articles w main_source completed of
        Inl e \<Rightarrow> Inl e
      | Inr all_articles \<Rightarrow> Inr (remove_duplicates all_articles))"

text \<open>The whole of \<^verbatim>\<open>FinancialTimesScraper.scrape_all_sources\<close>, lines 255-322.\<close>

definition ft_scrape_all_sources ::
  "world \<Rightarrow> source_config option \<Rightarrow> source_config list \<Rightarrow> int \<Rightarrow> int \<Rightarrow> exc + (article list \<times> log)" where
  "ft_scrape_all_sources w main_source completed min_articles max_articles =
     (case ft_unique_articles w main_source completed of
        Inl e \<Rightarrow> Inl e
      | Inr unique_articles \<Rightarrow>
          Inr (bound_articles (ft_filter_articles unique_articles) min_articles max_articles))"

section \<open>Example data\<close>

text \<open>
  Two articles with the same url from different sources, and one with a short title.
\<close>

definition art_a1 :: article where
  "art_a1 = \<lparr>source = ''Financial Times Technology'', title = ''AI models reshape banking'',
     url = ''https://www.ft.com/content/a'', summary = ''first'', date = [],
     category = ''Technology'', scraped_at = None\<rparr>"

definition art_a2 :: article where
  "art_a2 = \<lparr>source = ''Financial Times AI'', title = ''Chip makers face new rules'',
     url = ''https://www.ft.com/content/a'', summary = ''second'', date = [],
     category = ''Artificial Intelligence'', scraped_at = None\<rparr>"

definition art_b :: article where
  "art_b = \<lparr>source = ''Financial Times AI'', title = ''Short'',
     url = ''https://www.ft.com/content/b'', summary = [], date = [],
     category = ''Artificial Intelligence'', scraped_at = None\<rparr>"

text \<open>Five relevant articles with five urls.\<close>

definition numbered :: "char \<Rightarrow> article" where
  "numbered k = \<lparr>source = ''Financial Times Technology'', title = ''AI models reshape banking'',
     url = ''https://www.ft.com/content/'' @ [k], summary = [], date = [],
     category = ''Technology'', scraped_at = None\<rparr>"

definition five_articles :: "article list" where
  "five_articles = map numbered ''12345''"

text \<open>
  Attempts: one that meets a \<^verbatim>\<open>RequestException\<close> (a timeout, a refused connection, an
  HTTP error status), one that meets another exception, one that is served a page.
  None of them has a Selenium page.
\<close>

definition failing :: attempt_env where
  "failing = \<lparr>selenium_page = None, http_response = Inl RequestException\<rparr>"

definition crashing :: attempt_env where
  "crashing = \<lparr>selenium_page = None, http_response = Inl OtherException\<rparr>"

definition serving :: "string \<Rightarrow> attempt_env" where
  "serving content = \<lparr>selenium_page = None, http_response = Inr content\<rparr>"

text \<open>A url on which every attempt fails, and one on which the second attempt crashes.\<close>

definition always_failing :: "nat \<Rightarrow> attempt_env" where
  "always_failing k = failing"

definition failing_then_crashing :: "nat \<Rightarrow> attempt_env" where
  "failing_then_crashing k = (if k = 0 then failing else crashing)"

text \<open>The main source and two of the additional sources of \<^verbatim>\<open>config.py\<close>.\<close>

definition main_src :: source_config where
  "main_src = \<lparr>cfg_url = Some ''https://www.ft.com/technology'',
     cfg_name = ''Financial Times Technology'', cfg_category = ''Technology''\<rparr>"

definition src_ai :: source_config where
  "src_ai = \<lparr>cfg_url = Some ''https://www.ft.com/artificial-intelligence'',
     cfg_name = ''Financial Times AI'', cfg_category = ''Artificial Intelligence''\<rparr>"

definition src_companies :: source_config where
  "src_companies = \<lparr>cfg_url = Some ''https://www.ft.com/companies/technology'',
     cfg_name = ''Financial Times Tech Companies'', cfg_category = ''Technology Companies''\<rparr>"

text \<open>
  A page on which the HTML layer finds one teaser, linking to the same article whichever
  section shows it; the record carries the name and the category of the section.
\<close>

definition one_teaser :: "string \<Rightarrow> string \<Rightarrow> string \<Rightarrow> string \<Rightarrow> exc + article list" where
  "one_teaser content u source_name cat =
     Inr [\<lparr>source = source_name, title = ''AI models reshape banking'',
           url = ''https://www.ft.com/content/a'', summary = [], date = [],
           category = cat, scraped_at = None\<rparr>]"

text \<open>Every section is served at the first attempt and shows that teaser.\<close>

definition overlapping_world :: world where
  "overlapping_world = \<lparr>page = (\<lambda>u k. serving ''<html>''), parse = one_teaser\<rparr>"

text \<open>The same, but the markup served at the url \<open>bad\<close> makes the HTML parser raise.\<close>

definition rejected_page_world :: "string \<Rightarrow> world" where
  "rejected_page_world bad =
     \<lparr>page = (\<lambda>u k. serving ''<html>''),
      parse = (\<lambda>content u source_name cat.
                 if u = bad then Inl OtherException else one_teaser content u source_name cat)\<rparr>"

section \<open>Removing duplicates: properties\<close>

lemma remove_duplicates_loop_acc:
  "remove_duplicates_loop xs seen acc = acc @ remove_duplicates_loop xs seen []"
proof (induction xs arbitrary: seen acc)
  case Nil
  show ?case by simp
next
  case (Cons a rest)
  show ?case
  proof (cases "url a \<in> seen")
    case True
    then show ?thesis using Cons.IH [of seen acc] by simp
  next
    case False
    then show ?thesis
      using Cons.IH [of "insert (url a) seen" "acc @ [a]"] Cons.IH [of "insert (url a) seen" "[a]"]
      by simp
  qed
qed

lemma remove_duplicates_loop_Cons:
  "remove_duplicates_loop (a # rest) seen [] =
     (if url a \<in> seen then remove_duplicates_loop rest seen []
      else a # remove_duplicates_loop rest (insert (url a) seen) [])"
  using remove_duplicates_loop_acc [of rest "insert (url a) seen" "[a]"] by simp

lemma remove_duplicates_loop_urls:
  "url ` set (remove_duplicates_loop xs seen []) = url ` set xs - seen"
proof (induction xs arbitrary: seen)
  case Nil
  show ?case by simp
next
  case (Cons a rest)
  show ?case
    unfolding remove_duplicates_loop_Cons using Cons.IH by auto
qed

lemma remove_duplicates_loop_distinct:
  "distinct (map url (remove_duplicates_loop xs seen []))"
proof (induction xs arbitrary: seen)
  case Nil
  show ?case by simp
next
  case (Cons a rest)
  show ?case
    unfolding remove_duplicates_loop_Cons
    using Cons.IH remove_duplicates_loop_urls [of rest "insert (url a) seen"] by auto
qed

lemma remove_duplicates_loop_first:
  "filter (\<lambda>r. url r = u) (remove_duplicates_loop xs seen []) =
     (if u \<in> seen then [] else take 1 (filter (\<lambda>r. url r = u) xs))"
proof (induction xs arbitrary: seen)
  case Nil
  show ?case by simp
next
  case (Cons a rest)
  show ?case
    unfolding remove_duplicates_loop_Cons using Cons.IH by auto
qed

lemma remove_duplicates_loop_fixed:
  "distinct (map url ys) \<Longrightarrow> url ` set ys \<inter> seen = {} \<Longrightarrow> remove_duplicates_loop ys seen [] = ys"
proof (induction ys arbitrary: seen)
  case Nil
  show ?case by simp
next
  case (Cons a rest)
  from Cons.prems have "url a \<notin> seen" by auto
  moreover from Cons.prems have "url ` set rest \<inter> insert (url a) seen = {}" by auto
  moreover from Cons.prems have "distinct (map url rest)" by simp
  ultimately show ?case
    unfolding remove_duplicates_loop_Cons using Cons.IH [of "insert (url a) seen"] by simp
qed

text \<open>
  C1. Of the records passed through deduplication, the first one bearing each url is kept
  and every later one with that url is dropped: for every url, the output's records with
  that url are the first of the input's records with it (none when the input has none),
  so the urls of the output are pairwise different.
\<close>

theorem dedup_first_wins:
  "distinct (map url (remove_duplicates all_articles)) \<and>
   (\<forall>u. filter (\<lambda>r. url r = u) (remove_duplicates all_articles)
        = take 1 (filter (\<lambda>r. url r = u) all_articles))"
  unfolding remove_duplicates_def
  using remove_duplicates_loop_distinct [of all_articles "{}"]
  by (simp add: remove_duplicates_loop_first)

theorem dedup_first_wins_witness:
  "remove_duplicates [art_a1, art_a2, art_b] = [art_a1, art_b] \<and>
   distinct (map url (remove_duplicates [art_a1, art_a2, art_b])) \<and>
   filter (\<lambda>r. url r = ''https://www.ft.com/content/a'') (remove_duplicates [art_a1, art_a2, art_b])
     = [art_a1]"
  using dedup_first_wins [of "[art_a1, art_a2, art_b]"]
  by (simp add: remove_duplicates_def art_a1_def art_a2_def art_b_def)

text \<open>
  C9. Deduplication is idempotent: removing the duplicates of an already deduplicated
  sequence returns it unchanged.
\<close>

theorem dedup_idempotent:
  "remove_duplicates (remove_duplicates all_articles) = remove_duplicates all_articles"
  unfolding remove_duplicates_def
  by (rule remove_duplicates_loop_fixed) (simp_all add: remove_duplicates_loop_distinct)

theorem dedup_idempotent_witness:
  "remove_duplicates (remove_duplicates [art_a1, art_a2, art_b]) = [art_a1, art_b]"
  using dedup_idempotent [of "[art_a1, art_a2, art_b]"]
  by (simp add: remove_duplicates_def art_a1_def art_a2_def art_b_def)

section \<open>Relevance filter: properties\<close>

lemma startswith_prefix: "startswith s p = prefix p s"
  by (induction s p rule: startswith.induct) auto

lemma contains_sublist: "contains kw s = sublist kw s"
  by (induction s) (simp_all add: startswith_prefix sublist_Cons_right)

lemma filter_articles_loop_filter:
  "filter_articles_loop keywords valid_prefix articles filtered =
     filtered @ filter (\<lambda>a. list_ex (\<lambda>keyword. contains keyword (lower (title a))
                                          \<or> contains keyword (lower (summary a))) keywords
                            \<and> 10 \<le> length (title a) \<and> startswith (url a) valid_prefix) articles"
  by (induction articles arbitrary: filtered) (simp_all add: Let_def)

text \<open>
  The loop looks for the keyword as it is written in the lowered text; every configured
  keyword is written in lower case, so this is the case-insensitive match.
\<close>

lemma relevant_keywords_lower: "\<forall>kw \<in> set relevant_keywords. lower kw = kw"
  by code_simp

lemma RELEVANT_KEYWORDS_lower: "\<forall>kw \<in> set RELEVANT_KEYWORDS. lower kw = kw"
  by code_simp

lemma loop_spec_retains:
  assumes "\<forall>kw \<in> set keywords. lower kw = kw"
  shows "filter_articles_loop keywords valid_prefix articles [] =
           filter (spec_retains (set keywords) 10 {valid_prefix}) articles"
proof -
  have "(list_ex (\<lambda>keyword. contains keyword (lower (title a)) \<or> contains keyword (lower (summary a))) keywords
          \<and> 10 \<le> length (title a) \<and> startswith (url a) valid_prefix)
        = spec_retains (set keywords) 10 {valid_prefix} a" for a
    using assms
    by (auto simp add: spec_retains_def case_insensitive_substring_def list_ex_iff
          contains_sublist startswith_prefix)
  then show ?thesis by (simp add: filter_articles_loop_filter)
qed

text \<open>
  C5. The relevance filter retains a record iff (a) at least one keyword occurs as a
  case-insensitive substring of its title or summary, (b) its title has at least 10
  characters and (c) its url starts with one of the required prefixes: each of the two
  \<^verbatim>\<open>filter_articles\<close> methods returns its input filtered by the rule in the
  specification's words, with its own keyword list and its own required prefix.
\<close>

theorem filter_retains_iff:
  "ft_filter_articles articles
     = filter (spec_retains (set RELEVANT_KEYWORDS) 10 {''https://www.ft.com/''}) articles
   \<and> news_filter_articles articles
     = filter (spec_retains (set relevant_keywords) 10 {''http''}) articles"
  unfolding ft_filter_articles_def news_filter_articles_def
  using loop_spec_retains [OF RELEVANT_KEYWORDS_lower] loop_spec_retains [OF relevant_keywords_lower]
  by simp

theorem filter_retains_iff_witness:
  "filter (spec_retains (set RELEVANT_KEYWORDS) 10 {''https://www.ft.com/''}) [art_a1, art_b] = [art_a1]
   \<and> filter (spec_retains (set relevant_keywords) 10 {''http''}) [art_a1, art_b] = [art_a1]"
proof -
  have ft: "ft_filter_articles [art_a1, art_b] = [art_a1]"
    by code_simp
  have news: "news_filter_articles [art_a1, art_b] = [art_a1]"
    by code_simp
  from filter_retains_iff [of "[art_a1, art_b]"] show ?thesis
    unfolding ft news by (elim conjE) (intro conjI; erule sym)
qed

text \<open>
  C8. The output of the relevance filter is a subsequence of its input in the same
  relative order: it is the input restricted to the kept records, nothing reordered,
  repeated or changed.
\<close>

theorem filter_order_preserving:
  "subseq (ft_filter_articles articles) articles \<and>
   ft_filter_articles articles = filter (\<lambda>a. a \<in> set (ft_filter_articles articles)) articles"
proof -
  obtain P where P: "ft_filter_articles articles = filter P articles"
    unfolding ft_filter_articles_def by (simp add: filter_articles_loop_filter)
  have "filter (\<lambda>a. a \<in> set (filter P articles)) articles = filter P articles"
    by (rule filter_cong) auto
  with P show ?thesis by simp
qed

theorem filter_order_preserving_witness:
  "ft_filter_articles [art_b, art_a1, art_a2] = [art_a1, art_a2] \<and>
   subseq [art_a1, art_a2] [art_b, art_a1, art_a2]"
proof -
  have ev: "ft_filter_articles [art_b, art_a1, art_a2] = [art_a1, art_a2]"
    by code_simp
  from filter_order_preserving [of "[art_b, art_a1, art_a2]"] show ?thesis
    unfolding ev by (elim conjE) (intro conjI; simp)
qed

section \<open>Bounding: properties\<close>

lemma length_slice_to_nonneg: "0 \<le> k \<Longrightarrow> int (length (slice_to xs k)) \<le> k"
  by (simp add: slice_to_def)

text \<open>
  C4 as stated fails for a negative maximum: the slice \<^verbatim>\<open>filtered_articles[:-1]\<close> drops
  the last record only, so of three records two are returned, more than the maximum.
\<close>

theorem bound_negative_max_counterexample:
  "\<not> int (length (fst (bound_articles [art_a1, art_a2, art_b] 0 (- 1)))) \<le> - 1"
  by (simp add: bound_articles_def slice_to_def)

text \<open>
  C4, for a maximum that is not negative. The bounding stage returns at most
  \<open>max_articles\<close> records. When the input is longer than \<open>max_articles\<close> the output is
  the first \<open>max_articles\<close> records of the input in their order, the truncation is
  logged at level INFO, and any warning in the log is the minimum-count warning. When
  \<open>min_articles \<le> length \<le> max_articles\<close> the output is the input and nothing is logged.
\<close>

theorem bound_within_max:
  assumes "0 \<le> max_articles"
  shows "int (length (fst (bound_articles records min_articles max_articles))) \<le> max_articles
    \<and> (int (length records) > max_articles \<longrightarrow>
          fst (bound_articles records min_articles max_articles) = take (nat max_articles) records
          \<and> (INFO, Limited_to max_articles) \<in> set (snd (bound_articles records min_articles max_articles))
          \<and> (\<forall>m \<in> set (warnings (snd (bound_articles records min_articles max_articles))).
                m = Only_found (length records) min_articles))
    \<and> (min_articles \<le> int (length records) \<and> int (length records) \<le> max_articles \<longrightarrow>
          bound_articles records min_articles max_articles = (records, []))"
  using assms by (auto simp add: bound_articles_def slice_to_def warnings_def Let_def)

theorem bound_within_max_witness:
  "(0::int) \<le> 2
   \<and> fst (bound_articles [art_a1, art_a2, art_b] 1 2) = [art_a1, art_a2]
   \<and> warnings (snd (bound_articles [art_a1, art_a2, art_b] 1 2)) = []
   \<and> bound_articles [art_a1, art_a2, art_b] 1 3 = ([art_a1, art_a2, art_b], [])"
proof -
  have h: "(0::int) \<le> 2" by simp
  have h3: "(0::int) \<le> 3" by simp
  show ?thesis
    using bound_within_max [OF h, of "[art_a1, art_a2, art_b]" 1]
          bound_within_max [OF h3, of "[art_a1, art_a2, art_b]" 1]
    by (simp add: bound_articles_def slice_to_def warnings_def)
qed

text \<open>
  C7 as stated fails: with a minimum of 10, a maximum of 5 and five records after
  filtering, the five records are returned and the minimum-count warning is written,
  although the maximum is below the minimum.
\<close>

theorem min_warning_fires_below_max_counterexample:
  "length five_articles = 5 \<and> (5::int) < 10
   \<and> fst (bound_articles five_articles 10 5) = five_articles
   \<and> warnings (snd (bound_articles five_articles 10 5)) = [Only_found 5 10]
   \<and> warnings (snd (bound_articles five_articles 10 5)) \<noteq> []"
  by (simp add: bound_articles_def warnings_def five_articles_def)

text \<open>
  C7, amended. The minimum-count warning is written exactly when fewer than
  \<open>min_articles\<close> records survive filtering, whatever \<open>max_articles\<close> is: the test reads
  the length before truncation and does not look at the maximum. With a minimum of 10, a
  maximum of 5 and five records after filtering, the output is the five records and the
  warning "Only found 5 articles, less than minimum 10" is written.
\<close>

theorem min_warning_iff:
  "(warnings (snd (bound_articles records min_articles max_articles))
      = (if int (length records) < min_articles
         then [Only_found (length records) min_articles] else []))
   \<and> (length records = 5 \<longrightarrow>
        fst (bound_articles records 10 5) = records
        \<and> warnings (snd (bound_articles records 10 5)) = [Only_found 5 10])"
  by (auto simp add: bound_articles_def warnings_def Let_def)

theorem min_warning_iff_witness:
  "length five_articles = 5
   \<and> fst (bound_articles five_articles 10 5) = five_articles
   \<and> warnings (snd (bound_articles five_articles 10 5)) = [Only_found 5 10]
   \<and> warnings (snd (bound_articles five_articles 5 3)) = []"
  using min_warning_iff [of five_articles 10 5] min_warning_iff [of five_articles 5 3]
  by (simp add: five_articles_def)

section \<open>Fetching with retries: properties\<close>

text \<open>
  A run of attempts that all raise \<^verbatim>\<open>RequestException\<close>, none of them the last one, is
  skipped over with one invocation and one sleep each.
\<close>

lemma get_page_content_loop_skip:
  assumes "\<forall>j. a \<le> j \<and> j < a + d \<longrightarrow> try_body (env j) use_selenium = Inl RequestException"
    and "int (a + d) < max_retries"
  shows "get_page_content_loop env use_selenium max_retries a st =
         get_page_content_loop env use_selenium max_retries (a + d)
           (st\<lparr>op_calls := op_calls st + d, sleep_calls := sleep_calls st + d\<rparr>)"
  using assms
proof (induction d arbitrary: a st)
  case 0
  show ?case by simp
next
  case (Suc d)
  from Suc.prems have here: "try_body (env a) use_selenium = Inl RequestException" by simp
  from Suc.prems have lt: "int a < max_retries - 1" by simp
  have rest: "\<forall>j. Suc a \<le> j \<and> j < Suc a + d \<longrightarrow> try_body (env j) use_selenium = Inl RequestException"
    using Suc.prems by simp
  have bound: "int (Suc a + d) < max_retries" using Suc.prems by simp
  have "get_page_content_loop env use_selenium max_retries a st =
        get_page_content_loop env use_selenium max_retries (Suc a)
          (st\<lparr>op_calls := op_calls st + 1, sleep_calls := sleep_calls st + 1\<rparr>)"
    using here lt by (subst get_page_content_loop.simps) (simp add: Let_def)
  also have "\<dots> = get_page_content_loop env use_selenium max_retries (Suc a + d)
          (st\<lparr>op_calls := op_calls st + 1 + d, sleep_calls := sleep_calls st + 1 + d\<rparr>)"
    using Suc.IH [OF rest bound] by simp
  finally show ?case by simp
qed

lemma get_page_content_prefix:
  assumes "\<forall>j < k. try_body (env j) use_selenium = Inl RequestException"
    and "int k < max_retries"
  shows "get_page_content env use_selenium max_retries =
         get_page_content_loop env use_selenium max_retries k \<lparr>op_calls = k, sleep_calls = k\<rparr>"
  unfolding get_page_content_def
  using get_page_content_loop_skip [of 0 k env use_selenium max_retries "\<lparr>op_calls = 0, sleep_calls = 0\<rparr>"] assms
  by simp

lemma get_page_content_all_request_exceptions:
  assumes "\<forall>k. int k < max_retries \<longrightarrow> try_body (env k) use_selenium = Inl RequestException"
  shows "get_page_content env use_selenium max_retries =
           (Inr None, \<lparr>op_calls = nat max_retries, sleep_calls = nat max_retries - 1\<rparr>)"
proof (cases "0 < max_retries")
  case False
  then show ?thesis
    unfolding get_page_content_def
    by (subst get_page_content_loop.simps) simp
next
  case True
  define k where "k = nat max_retries - 1"
  have k: "int k < max_retries" "\<not> int k < max_retries - 1" "k + 1 = nat max_retries"
    using True by (simp_all add: k_def)
  have "\<forall>j < k. try_body (env j) use_selenium = Inl RequestException"
    using assms k by simp
  then have "get_page_content env use_selenium max_retries =
         get_page_content_loop env use_selenium max_retries k \<lparr>op_calls = k, sleep_calls = k\<rparr>"
    using k(1) by (rule get_page_content_prefix)
  also have "\<dots> = (Inr None, \<lparr>op_calls = k + 1, sleep_calls = k\<rparr>)"
    using assms k by (subst get_page_content_loop.simps) (simp add: Let_def)
  finally show ?thesis using k by (simp add: k_def)
qed

lemma get_page_content_loop_result:
  "fst (get_page_content_loop env use_selenium max_retries a st) = Inr None
   \<or> (\<exists>k content. a \<le> k \<and> int k < max_retries \<and> try_body (env k) use_selenium = Inr content
         \<and> fst (get_page_content_loop env use_selenium max_retries a st) = Inr (Some content))"
proof (induction env use_selenium max_retries a st rule: get_page_content_loop.induct)
  case (1 env use_selenium max_retries attempt st)
  show ?case
  proof (cases "int attempt < max_retries")
    case False
    then show ?thesis by (subst get_page_content_loop.simps) simp
  next
    case in_range: True
    show ?thesis
    proof (cases "try_body (env attempt) use_selenium")
      case (Inr content)
      with in_range show ?thesis
        by (subst (1 2) get_page_content_loop.simps) (auto simp add: Let_def)
    next
      case (Inl e)
      show ?thesis
      proof (cases e)
        case OtherException
        with Inl in_range show ?thesis
          by (subst get_page_content_loop.simps) (simp add: Let_def)
      next
        case RequestException
        show ?thesis
        proof (cases "int attempt < max_retries - 1")
          case False
          with RequestException Inl in_range show ?thesis
            by (subst get_page_content_loop.simps) (simp add: Let_def)
        next
          case True
          have step: "get_page_content_loop env use_selenium max_retries attempt st =
                get_page_content_loop env use_selenium max_retries (attempt + 1)
                  (st\<lparr>op_calls := op_calls st + 1, sleep_calls := sleep_calls st + 1\<rparr>)"
            using True RequestException Inl in_range
            by (subst get_page_content_loop.simps) (simp add: Let_def)
          from "1.IH" [OF in_range refl Inl RequestException True]
          show ?thesis unfolding step by (auto intro: Suc_leD)
        qed
      qed
    qed
  qed
qed

lemma get_page_content_loop_calls:
  "op_calls (snd (get_page_content_loop env use_selenium max_retries a st))
     \<le> op_calls st + (nat max_retries - a)"
proof (induction env use_selenium max_retries a st rule: get_page_content_loop.induct)
  case (1 env use_selenium max_retries attempt st)
  show ?case
  proof (cases "int attempt < max_retries")
    case False
    then show ?thesis by (subst get_page_content_loop.simps) simp
  next
    case in_range: True
    then have pos: "1 \<le> nat max_retries - attempt" by simp 
    show ?thesis
    proof (cases "try_body (env attempt) use_selenium")
      case (Inr content)
      with in_range pos show ?thesis
        by (subst get_page_content_loop.simps) (simp add: Let_def)
    next
      case (Inl e)
      show ?thesis
      proof (cases e)
        case OtherException
        with Inl in_range pos show ?thesis
          by (subst get_page_content_loop.simps) (simp add: Let_def)
      next
        case RequestException
        show ?thesis
        proof (cases "int attempt < max_retries - 1")
          case False
          with RequestException Inl in_range pos show ?thesis
            by (subst get_page_content_loop.simps) (simp add: Let_def)
        next
          case True
          have step: "get_page_content_loop env use_selenium max_retries attempt st =
                get_page_content_loop env use_selenium max_retries (attempt + 1)
                  (st\<lparr>op_calls := op_calls st + 1, sleep_calls := sleep_calls st + 1\<rparr>)"
            using True RequestException Inl in_range
            by (subst get_page_content_loop.simps) (simp add: Let_def)
          from "1.IH" [OF in_range refl Inl RequestException True] in_range
          show ?thesis unfolding step by simp
        qed
      qed
    qed
  qed
qed

lemma get_page_content_loop_calls_lower:
  "op_calls st + (if int a < max_retries then 1 else 0)
     \<le> op_calls (snd (get_page_content_loop env use_selenium max_retries a st))"
proof (induction env use_selenium max_retries a st rule: get_page_content_loop.induct)
  case (1 env use_selenium max_retries attempt st)
  show ?case
  proof (cases "int attempt < max_retries")
    case False
    then show ?thesis by (subst get_page_content_loop.simps) simp
  next
    case in_range: True
    show ?thesis
    proof (cases "try_body (env attempt) use_selenium")
      case (Inr content)
      with in_range show ?thesis
        by (subst get_page_content_loop.simps) (simp add: Let_def)
    next
      case (Inl e)
      show ?thesis
      proof (cases e)
        case OtherException
        with Inl in_range show ?thesis
          by (subst get_page_content_loop.simps) (simp add: Let_def)
      next
        case RequestException
        show ?thesis
        proof (cases "int attempt < max_retries - 1")
          case False
          with RequestException Inl in_range show ?thesis
            by (subst get_page_content_loop.simps) (simp add: Let_def)
        next
          case True
          have step: "get_page_content_loop env use_selenium max_retries attempt st =
                get_page_content_loop env use_selenium max_retries (attempt + 1)
                  (st\<lparr>op_calls := op_calls st + 1, sleep_calls := sleep_calls st + 1\<rparr>)"
            using True RequestException Inl in_range
            by (subst get_page_content_loop.simps) (simp add: Let_def)
          from "1.IH" [OF in_range refl Inl RequestException True] in_range
          show ?thesis unfolding step by simp
        qed
      qed
    qed
  qed
qed

text \<open>
  C3 as stated fails: with \<open>max_retries = 3\<close> and every attempt meeting a
  \<^verbatim>\<open>RequestException\<close>, the operation is invoked 3 times, not 1 + 3 times.
\<close>

theorem retry_count_counterexample:
  "try_body failing False = Inl RequestException
   \<and> op_calls (snd (get_page_content always_failing False 3)) = 3
   \<and> op_calls (snd (get_page_content always_failing False 3)) \<noteq> 1 + 3"
  by (simp add: get_page_content_def get_page_content_loop.simps try_body_def failing_def
        always_failing_def)

text \<open>
  C3, amended. When every invocation of the fetch operation fails, the retrying fetch
  returns \<open>None\<close> to its caller and raises nothing, after at most \<open>max_retries\<close>
  invocations in all; when every failure is a \<^verbatim>\<open>RequestException\<close> it invokes the
  operation exactly \<open>max_retries\<close> times, the first attempt included (not at all when
  \<open>max_retries\<close> is zero or negative).
\<close>

theorem retry_exhausted:
  assumes "\<forall>k. int k < max_retries \<longrightarrow> (\<exists>e. try_body (env k) use_selenium = Inl e)"
  shows "fst (get_page_content env use_selenium max_retries) = Inr None
    \<and> op_calls (snd (get_page_content env use_selenium max_retries)) \<le> nat max_retries
    \<and> ((\<forall>k. int k < max_retries \<longrightarrow> try_body (env k) use_selenium = Inl RequestException) \<longrightarrow>
         op_calls (snd (get_page_content env use_selenium max_retries)) = nat max_retries)"
proof -
  have "fst (get_page_content env use_selenium max_retries) = Inr None"
    using get_page_content_loop_result [of env use_selenium max_retries 0 "\<lparr>op_calls = 0, sleep_calls = 0\<rparr>"] assms
    unfolding get_page_content_def by auto
  moreover have "op_calls (snd (get_page_content env use_selenium max_retries)) \<le> nat max_retries"
    using get_page_content_loop_calls [of env use_selenium max_retries 0 "\<lparr>op_calls = 0, sleep_calls = 0\<rparr>"]
    unfolding get_page_content_def by simp
  ultimately show ?thesis
    by (simp add: get_page_content_all_request_exceptions)
qed

theorem retry_exhausted_witness:
  "get_page_content always_failing True 3 = (Inr None, \<lparr>op_calls = 3, sleep_calls = 2\<rparr>)"
proof -
  have h: "\<forall>k. int k < 3 \<longrightarrow> (\<exists>e. try_body (always_failing k) True = Inl e)"
    by (simp add: try_body_def failing_def always_failing_def)
  have h': "\<forall>k. int k < 3 \<longrightarrow> try_body (always_failing k) True = Inl RequestException"
    by (simp add: try_body_def failing_def always_failing_def)
  have sleeps: "sleep_calls (snd (get_page_content always_failing True 3)) = 2"
    by (simp add: get_page_content_def get_page_content_loop.simps try_body_def failing_def
          always_failing_def)
  from retry_exhausted [OF h] h'
  have "fst (get_page_content always_failing True 3) = Inr None"
    and "op_calls (snd (get_page_content always_failing True 3)) = nat 3"
    by blast+
  with sleeps show ?thesis
    by (cases "get_page_content always_failing True 3") (auto intro: fetch_state.equality)
qed

text \<open>
  C10. \<^verbatim>\<open>get_page_content\<close> never lets an exception reach its caller: it returns the
  content that one of its attempts obtained, and \<open>None\<close> on every other path. Only a
  \<^verbatim>\<open>RequestException\<close> is retried: when attempt \<open>k\<close> raises any other exception after
  \<open>k\<close> attempts that raised a \<^verbatim>\<open>RequestException\<close>, it returns \<open>None\<close> at once, having
  run \<open>k + 1\<close> attempts and leaving the remaining ones unused; whereas after a
  \<^verbatim>\<open>RequestException\<close> in an attempt that is not the last one, the next attempt is run.
\<close>

theorem get_page_content_never_raises:
  "(\<forall>e. fst (get_page_content env use_selenium max_retries) \<noteq> Inl e)
   \<and> (fst (get_page_content env use_selenium max_retries) = Inr None
     \<or> (\<exists>k content. int k < max_retries \<and> try_body (env k) use_selenium = Inr content
          \<and> fst (get_page_content env use_selenium max_retries) = Inr (Some content)))
   \<and> (int k < max_retries
        \<and> (\<forall>j < k. try_body (env j) use_selenium = Inl RequestException)
        \<and> try_body (env k) use_selenium = Inl OtherException
      \<longrightarrow> get_page_content env use_selenium max_retries
            = (Inr None, \<lparr>op_calls = k + 1, sleep_calls = k\<rparr>))
   \<and> (int k + 1 < max_retries
        \<and> (\<forall>j \<le> k. try_body (env j) use_selenium = Inl RequestException)
      \<longrightarrow> k + 2 \<le> op_calls (snd (get_page_content env use_selenium max_retries)))"
proof (intro conjI impI)
  show returned: "fst (get_page_content env use_selenium max_retries) = Inr None
     \<or> (\<exists>k content. int k < max_retries \<and> try_body (env k) use_selenium = Inr content
          \<and> fst (get_page_content env use_selenium max_retries) = Inr (Some content))"
    using get_page_content_loop_result [of env use_selenium max_retries 0 "\<lparr>op_calls = 0, sleep_calls = 0\<rparr>"]
    unfolding get_page_content_def by auto
  from returned show "\<forall>e. fst (get_page_content env use_selenium max_retries) \<noteq> Inl e"
    by auto
next
  assume a: "int k < max_retries
        \<and> (\<forall>j < k. try_body (env j) use_selenium = Inl RequestException)
        \<and> try_body (env k) use_selenium = Inl OtherException"
  then have "get_page_content env use_selenium max_retries =
         get_page_content_loop env use_selenium max_retries k \<lparr>op_calls = k, sleep_calls = k\<rparr>"
    by (intro get_page_content_prefix) simp_all
  also have "\<dots> = (Inr None, \<lparr>op_calls = k + 1, sleep_calls = k\<rparr>)"
    using a by (subst get_page_content_loop.simps) (simp add: Let_def)
  finally show "get_page_content env use_selenium max_retries
            = (Inr None, \<lparr>op_calls = k + 1, sleep_calls = k\<rparr>)" .
next
  assume a: "int k + 1 < max_retries
        \<and> (\<forall>j \<le> k. try_body (env j) use_selenium = Inl RequestException)"
  then have "get_page_content env use_selenium max_retries =
         get_page_content_loop env use_selenium max_retries (k + 1) \<lparr>op_calls = k + 1, sleep_calls = k + 1\<rparr>"
    by (intro get_page_content_prefix) simp_all
  moreover have "k + 2 \<le> op_calls (snd (get_page_content_loop env use_selenium max_retries (k + 1)
                    \<lparr>op_calls = k + 1, sleep_calls = k + 1\<rparr>))"
    using a get_page_content_loop_calls_lower [of "\<lparr>op_calls = k + 1, sleep_calls = k + 1\<rparr>"
                 "k + 1" max_retries env use_selenium]
    by simp
  ultimately show "k + 2 \<le> op_calls (snd (get_page_content env use_selenium max_retries))" by simp
qed

theorem get_page_content_never_raises_witness:
  "get_page_content failing_then_crashing True 3 = (Inr None, \<lparr>op_calls = 2, sleep_calls = 1\<rparr>)
   \<and> 2 \<le> op_calls (snd (get_page_content always_failing True 3))"
proof -
  have h1: "int 1 < 3
        \<and> (\<forall>j < 1. try_body (failing_then_crashing j) True = Inl RequestException)
        \<and> try_body (failing_then_crashing 1) True = Inl OtherException"
    by (simp add: try_body_def failing_def crashing_def failing_then_crashing_def)
  have h2: "int 0 + 1 < 3
        \<and> (\<forall>j \<le> 0. try_body (always_failing j) True = Inl RequestException)"
    by (simp add: try_body_def failing_def always_failing_def)
  from get_page_content_never_raises [of failing_then_crashing True 3 1] h1
  have a: "get_page_content failing_then_crashing True 3
             = (Inr None, \<lparr>op_calls = 1 + 1, sleep_calls = 1\<rparr>)"
    by blast
  from get_page_content_never_raises [of always_failing True 3 0] h2
  have b: "0 + 2 \<le> op_calls (snd (get_page_content always_failing True 3))"
    by blast
  from a b show ?thesis by simp
qed

section \<open>Scraping the sources: properties\<close>

lemma collect_completed_concat:
  "collect_completed w cs acc =
     acc @ concat (map (\<lambda>c. case scrape_source_parallel w c of Inr articles \<Rightarrow> articles | Inl e \<Rightarrow> []) cs)"
  by (induction cs arbitrary: acc) (simp_all split: sum.splits)

lemma remove_duplicates_urls: "url ` set (remove_duplicates xs) = url ` set xs"
  unfolding remove_duplicates_def by (simp add: remove_duplicates_loop_urls)

lemma remove_duplicates_length: "length (remove_duplicates xs) = card (url ` set xs)"
proof -
  have "length (remove_duplicates xs) = length (map url (remove_duplicates xs))" by simp
  also have "\<dots> = card (set (map url (remove_duplicates xs)))"
    unfolding remove_duplicates_def
    by (rule distinct_card [symmetric]) (rule remove_duplicates_loop_distinct)
  finally show ?thesis by (simp add: remove_duplicates_urls)
qed

text \<open>
  A task never raises, and a task whose extraction raises contributes no record. The run
  returns a result exactly when the extraction of the main source, if there is a main
  source, returns.
\<close>

lemma scrape_source_parallel_returns:
  "\<exists>articles. scrape_source_parallel w c = Inr articles"
  by (simp add: scrape_source_parallel_def split: sum.splits option.splits)

lemma scrape_source_parallel_failure:
  "cfg_url c = Some u \<Longrightarrow> extract_ft_articles w u (cfg_name c) (cfg_category c) = Inl e \<Longrightarrow>
     scrape_source_parallel w c = Inr []"
  by (simp add: scrape_source_parallel_def)

lemma run_completes_iff:
  "(\<exists>r. ft_scrape_all_sources w main_source completed min_articles max_articles = Inr r) \<longleftrightarrow>
   (case main_source of
      None \<Rightarrow> True
    | Some m \<Rightarrow> (case cfg_url m of
                   None \<Rightarrow> False
                 | Some u \<Rightarrow> (\<exists>articles. extract_ft_articles w u (cfg_name m) (cfg_category m) = Inr articles)))"
  by (auto simp add: ft_scrape_all_sources_def ft_unique_articles_def ft_all_articles_def
        split: sum.splits option.splits)

text \<open>
  C2 as stated fails: the batches are appended in the order in which the tasks complete
  and are not sorted back into the order of \<^verbatim>\<open>ADDITIONAL_SOURCES\<close>. Two sources show
  the same url; the record that survives is the one of the task that completed first, so
  two completion orders of the same sources give different outputs.
\<close>

theorem completion_order_changes_output_counterexample:
  "mset [src_ai, src_companies] = mset [src_companies, src_ai] \<and>
   ft_unique_articles overlapping_world None [src_ai, src_companies]
     \<noteq> ft_unique_articles overlapping_world None [src_companies, src_ai]"
  by (simp add: ft_unique_articles_def ft_all_articles_def scrape_source_parallel_def
        extract_ft_articles_def get_page_content_def get_page_content_loop.simps try_body_def
        remove_duplicates_def overlapping_world_def serving_def one_teaser_def
        src_ai_def src_companies_def)

text \<open>
  C2, amended. For fixed sources and fixed per-source record sequences, the deduplicated
  outputs of any two completion orders hold the same urls, each once, and so have the
  same number of records (or the run raises the same exception under both orders). The
  batches of the additional sources are merged in completion order, after the batch of
  the main source; which source's record stands for a shared url, and the order of the
  records, depend on the completion order.
\<close>

theorem completion_order_same_urls:
  assumes "mset completed1 = mset completed2"
  shows "(\<exists>e. ft_unique_articles w main_source completed1 = Inl e
            \<and> ft_unique_articles w main_source completed2 = Inl e)
       \<or> (\<exists>out1 out2. ft_unique_articles w main_source completed1 = Inr out1
            \<and> ft_unique_articles w main_source completed2 = Inr out2
            \<and> url ` set out1 = url ` set out2 \<and> distinct (map url out1) \<and> distinct (map url out2)
            \<and> length out1 = length out2)"
proof -
  from assms have "set completed1 = set completed2" by (rule mset_eq_setD)
  then have same: "url ` set (collect_completed w completed1 acc)
                 = url ` set (collect_completed w completed2 acc)" for acc
    by (simp add: collect_completed_concat)
  have d: "distinct (map url (remove_duplicates xs))" for xs
    unfolding remove_duplicates_def by (rule remove_duplicates_loop_distinct)
  show ?thesis
    using same d
    by (auto simp add: ft_unique_articles_def ft_all_articles_def remove_duplicates_urls
          remove_duplicates_length split: sum.splits option.splits)
qed

theorem completion_order_same_urls_witness:
  "mset [src_ai, src_companies] = mset [src_companies, src_ai]
   \<and> map url (projr (ft_unique_articles overlapping_world None [src_ai, src_companies]))
       = [''https://www.ft.com/content/a'']
   \<and> map url (projr (ft_unique_articles overlapping_world None [src_companies, src_ai]))
       = [''https://www.ft.com/content/a'']
   \<and> map source (projr (ft_unique_articles overlapping_world None [src_ai, src_companies]))
       = [''Financial Times AI'']
   \<and> map source (projr (ft_unique_articles overlapping_world None [src_companies, src_ai]))
       = [''Financial Times Tech Companies'']"
proof -
  have h: "mset [src_ai, src_companies] = mset [src_companies, src_ai]" by simp
  show ?thesis
    using completion_order_same_urls [OF h, of overlapping_world None] h
    by (simp add: ft_unique_articles_def ft_all_articles_def scrape_source_parallel_def
          extract_ft_articles_def get_page_content_def get_page_content_loop.simps try_body_def
          remove_duplicates_def overlapping_world_def serving_def one_teaser_def
          src_ai_def src_companies_def)
qed

text \<open>
  C6 on the code. The main source is extracted by a direct call of
  \<^verbatim>\<open>extract_ft_articles\<close> (lines 262-266), outside any \<^verbatim>\<open>try\<close>; the additional sources
  go through \<^verbatim>\<open>scrape_source_parallel\<close>, which turns every exception into an empty
  list. When the page of the main source makes the HTML parser raise, the exception
  leaves \<^verbatim>\<open>scrape_all_sources\<close> and no result sequence is returned; the same failure in
  an additional source is isolated and the run returns.
\<close>

theorem main_source_exception_aborts_run:
  "ft_scrape_all_sources (rejected_page_world ''https://www.ft.com/technology'')
      (Some main_src) [src_ai, src_companies] 50 150 = Inl OtherException
   \<and> (\<exists>r. ft_scrape_all_sources (rejected_page_world ''https://www.ft.com/artificial-intelligence'')
      (Some main_src) [src_ai, src_companies] 50 150 = Inr r)"
  by (simp add: ft_scrape_all_sources_def ft_unique_articles_def ft_all_articles_def
        scrape_source_parallel_def
        extract_ft_articles_def get_page_content_def get_page_content_loop.simps try_body_def
        rejected_page_world_def serving_def one_teaser_def
        main_src_def src_ai_def src_companies_def)

end
